theory Spec2Isabelle
  imports Complex_Main "HOL-Library.Multiset"
begin

section \<open>Ranking metrics of \<open>cute_ranking.py\<close>: the embedding\<close>

text \<open>
  The module is a set of pure functions over relevance vectors. A relevance vector is a
  Python list (or one-dimensional numpy array) of numbers, modelled as a \<open>real list\<close>;
  a collection of vectors is a \<open>real list list\<close>. Integers (\<open>k\<close>, \<open>max_rel\<close>,
  \<open>method\<close>) are Python's unbounded ints, modelled as \<open>int\<close>; an optional cutoff
  \<open>k=None\<close> is an \<open>int option\<close>.

  Floating-point numbers are idealised as real numbers: rounding is not modelled. What is
  modelled is the one way the functions leave the reals on real inputs: numpy's \<open>0/0\<close>
  (the mean of an empty array, or a division by a zero \<open>max_rel\<close>) is \<open>nan\<close>, and a
  nonzero number divided by zero is an infinity; numpy warns and returns them, it does not raise.

  A raised exception is the left summand of the result: \<open>Inl e\<close> is "raised \<open>e\<close>",
  \<open>Inr v\<close> is "returned \<open>v\<close>".
\<close>

subsection \<open>Exceptions and numpy floats\<close>

datatype exn = ValueError | IndexError | AssertionError

datatype npfloat = NaN | PInf | NInf | Fin real

text \<open>Addition of numpy floats, as far as the reals and the three special values go.\<close>

fun fl_add :: "npfloat \<Rightarrow> npfloat \<Rightarrow> npfloat" where
  "fl_add (Fin a) (Fin b) = Fin (a + b)"
| "fl_add NaN _ = NaN"
| "fl_add _ NaN = NaN"
| "fl_add PInf NInf = NaN"
| "fl_add NInf PInf = NaN"
| "fl_add PInf _ = PInf"
| "fl_add _ PInf = PInf"
| "fl_add NInf _ = NInf"
| "fl_add _ NInf = NInf"

text \<open>\<open>a / b\<close> where \<open>a\<close> is a numpy scalar: a zero divisor gives \<open>nan\<close> or an infinity.\<close>

definition np_true_divide :: "real \<Rightarrow> real \<Rightarrow> npfloat" where
  "np_true_divide a b =
     (if b \<noteq> 0 then Fin (a / b)
      else if a = 0 then NaN
      else if 0 < a then PInf else NInf)"

text \<open>\<open>np.mean\<close> of an array of finite numbers; of an empty array it is \<open>nan\<close>.\<close>

definition np_mean :: "real list \<Rightarrow> npfloat" where
  "np_mean xs = (if xs = [] then NaN else Fin (sum_list xs / real (length xs)))"

text \<open>\<open>np.mean\<close> of a list of numpy floats (the values other functions returned).\<close>

definition np_mean_floats :: "npfloat list \<Rightarrow> npfloat" where
  "np_mean_floats xs =
     (if xs = [] then NaN
      else (case foldl fl_add (Fin 0) xs of
              Fin s \<Rightarrow> Fin (s / real (length xs))
            | v \<Rightarrow> v))"

subsection \<open>Slices, boolean arrays, comprehensions\<close>

text \<open>
  Python's \<open>r[:k]\<close>: the whole sequence for \<open>k = None\<close>, the first \<open>k\<close> elements for
  \<open>k \<ge> 0\<close> (all of them when there are fewer), and all but the last \<open>-k\<close> for \<open>k < 0\<close>.
\<close>

fun slice_to :: "'a list \<Rightarrow> int option \<Rightarrow> 'a list" where
  "slice_to xs None = xs"
| "slice_to xs (Some k) =
     (if 0 \<le> k then take (nat k) xs else take (length xs - nat (- k)) xs)"

text \<open>\<open>np.asarray(r) != 0\<close>: the boolean array of the relevant positions.\<close>

definition binarize :: "real list \<Rightarrow> bool list" where
  "binarize r = map (\<lambda>x. x \<noteq> 0) r"

text \<open>A boolean array read as numbers (\<open>True\<close> is 1), as numpy does in \<open>!= 0\<close>, sum and mean.\<close>

definition as_numbers :: "bool list \<Rightarrow> real list" where
  "as_numbers bs = map of_bool bs"

text \<open>\<open>a.nonzero()[0]\<close>: the 0-based indices of the nonzero entries, ascending.\<close>

definition nonzero :: "real list \<Rightarrow> nat list" where
  "nonzero r = filter (\<lambda>i. r ! i \<noteq> 0) [0..<length r]"

text \<open>A list comprehension whose element expression may raise: the first exception wins.\<close>

fun collect :: "(exn + 'a) list \<Rightarrow> exn + 'a list" where
  "collect [] = Inr []"
| "collect (x # xs) =
     (case x of
        Inl e \<Rightarrow> Inl e
      | Inr v \<Rightarrow> (case collect xs of Inl e \<Rightarrow> Inl e | Inr vs \<Rightarrow> Inr (v # vs)))"

subsection \<open>Rank-position metrics\<close>

text \<open>The loop of \<open>hit_rate_at_k\<close>: \<open>hits\<close> is incremented when \<open>np.sum(r[:k]) > 0\<close>.\<close>

fun hits_loop :: "real list list \<Rightarrow> int \<Rightarrow> nat \<Rightarrow> nat" where
  "hits_loop [] k hits = hits"
| "hits_loop (r # rs) k hits =
     hits_loop rs k (if 0 < sum_list (slice_to r (Some k)) then hits + 1 else hits)"

text \<open>
  \<open>k < 1 or k > len(rs[0])\<close> is evaluated left to right: \<open>rs[0]\<close> is read (and raises
  IndexError on an empty collection) only when \<open>k \<ge> 1\<close>.
\<close>

definition hit_rate_at_k :: "real list list \<Rightarrow> int \<Rightarrow> exn + real" where
  "hit_rate_at_k rs k =
     (if k < 1 then Inl ValueError
      else (case rs of
              [] \<Rightarrow> Inl IndexError
            | r0 # _ \<Rightarrow>
                if int (length r0) < k then Inl ValueError
                else Inr (real (hits_loop rs k 0) / real (length rs))))"

text \<open>One vector's term in \<open>mean_reciprocal_rank\<close>: \<open>1.0 / (r[0] + 1) if r.size else 0.0\<close>
  on the indices of the nonzero entries.\<close>

definition reciprocal_rank :: "real list \<Rightarrow> real" where
  "reciprocal_rank r = (case nonzero r of [] \<Rightarrow> 0 | i # _ \<Rightarrow> 1 / real (i + 1))"

definition mean_reciprocal_rank :: "real list list \<Rightarrow> npfloat" where
  "mean_reciprocal_rank rs = np_mean (map reciprocal_rank rs)"

subsection \<open>Precision and recall\<close>

definition r_precision :: "real list \<Rightarrow> npfloat" where
  "r_precision r0 =
     (let r = binarize r0;
          z = nonzero (as_numbers r)
      in if z = [] then Fin 0
         else np_mean (as_numbers (slice_to r (Some (int (last z) + 1)))))"

text \<open>The assertion \<open>k is None or k >= 1\<close> of \<open>precision_at_k\<close> and \<open>recall_at_k\<close>.\<close>

definition k_asserted :: "int option \<Rightarrow> bool" where
  "k_asserted k = (case k of None \<Rightarrow> True | Some n \<Rightarrow> 1 \<le> n)"

definition precision_at_k :: "real list \<Rightarrow> int option \<Rightarrow> exn + npfloat" where
  "precision_at_k r0 k =
     (if \<not> k_asserted k then Inl AssertionError
      else (let r = binarize (slice_to r0 k)
            in if (case k of None \<Rightarrow> False | Some n \<Rightarrow> int (length r) \<noteq> n)
               then Inl ValueError
               else Inr (np_mean (as_numbers r))))"

definition recall_at_k :: "real list \<Rightarrow> int \<Rightarrow> int option \<Rightarrow> exn + npfloat" where
  "recall_at_k r0 max_rel k =
     (if \<not> k_asserted k then Inl AssertionError
      else (let r = binarize (slice_to r0 k);
                s = sum_list (as_numbers r)
            in if real_of_int max_rel < s then Inl ValueError
               else Inr (np_true_divide s (real_of_int max_rel))))"

subsection \<open>Average precision\<close>

text \<open>
  \<open>[precision_at_k(r, k + 1) for k in range(r.size) if r[k]]\<close> on the boolean array
  \<open>r\<close>; \<open>precision_at_k\<close> receives the boolean array itself.
\<close>

definition average_precision :: "real list \<Rightarrow> exn + npfloat" where
  "average_precision r0 =
     (let r = binarize r0
      in case collect (map (\<lambda>k. precision_at_k (as_numbers r) (Some (int k + 1)))
                         (filter (\<lambda>k. r ! k) [0..<length r])) of
           Inl e \<Rightarrow> Inl e
         | Inr out \<Rightarrow> if out = [] then Inr (Fin 0) else Inr (np_mean_floats out))"

subsection \<open>Discounted cumulative gain\<close>

text \<open>
  \<open>r[1:] / np.log2(np.arange(2, r.size + 1))\<close> and \<open>r / np.log2(np.arange(2, r.size + 2))\<close>
  divide elementwise; both operands have the same length.
\<close>

definition discounted :: "real list \<Rightarrow> nat list \<Rightarrow> real list" where
  "discounted xs js = map (\<lambda>(x, j). x / log 2 (real j)) (zip xs js)"

definition dcg_at_k :: "real list \<Rightarrow> int \<Rightarrow> int \<Rightarrow> exn + real" where
  "dcg_at_k r0 k meth =
     (let r = slice_to r0 (Some k)
      in if r \<noteq> [] then
           (if meth = 0 then
              Inr (hd r + sum_list (discounted (tl r) [2..<length r + 1]))
            else if meth = 1 then
              Inr (sum_list (discounted r [2..<length r + 2]))
            else Inl ValueError)
         else Inr 0)"

text \<open>\<open>sorted(r, reverse=True)\<close> is the vector in descending order.\<close>

definition sorted_desc :: "real list \<Rightarrow> real list" where
  "sorted_desc r = rev (sort r)"

definition ndcg_at_k :: "real list \<Rightarrow> int \<Rightarrow> int \<Rightarrow> exn + real" where
  "ndcg_at_k r k meth =
     (case dcg_at_k (sorted_desc r) k meth of
        Inl e \<Rightarrow> Inl e
      | Inr dcg_max \<Rightarrow>
          if dcg_max = 0 then Inr 0
          else (case dcg_at_k r k meth of
                  Inl e \<Rightarrow> Inl e
                | Inr d \<Rightarrow> Inr (d / dcg_max)))"

subsection \<open>The wording of the specification\<close>

text \<open>
  The number of relevant (nonzero) entries among the first \<open>n\<close> positions of a vector,
  and their fraction of \<open>n\<close>, as the specification words them.
\<close>

definition relevant_count :: "real list \<Rightarrow> nat \<Rightarrow> nat" where
  "relevant_count r n = length (filter (\<lambda>x. x \<noteq> 0) (take n r))"

definition relevant_fraction :: "real list \<Rightarrow> nat \<Rightarrow> real" where
  "relevant_fraction r n = real (relevant_count r n) / real n"

text \<open>
  The number of leading positions a cutoff selects: all of them when \<open>k\<close> is omitted.
\<close>

definition window :: "real list \<Rightarrow> int option \<Rightarrow> nat" where
  "window r k = (case k of None \<Rightarrow> length r | Some n \<Rightarrow> nat n)"

text \<open>
  The ranks (1-based positions) of a vector whose entry is relevant, in ascending order.
\<close>

definition relevant_ranks :: "real list \<Rightarrow> nat list" where
  "relevant_ranks r = filter (\<lambda>i. r ! (i - 1) \<noteq> 0) [1..<length r + 1]"


section \<open>Auxiliary facts\<close>

lemma sum_list_as_numbers: "sum_list (as_numbers (binarize r)) = real (length (filter (\<lambda>x. x \<noteq> 0) r))"
  by (induction r) (simp_all add: as_numbers_def binarize_def)

lemma slice_to_empty_iff:
  "slice_to r (Some k) = [] \<longleftrightarrow> r = [] \<or> k = 0 \<or> k \<le> - int (length r)"
  by (cases r) auto

lemma length_slice_sorted_desc:
  "length (slice_to (sorted_desc r) k) = length (slice_to r k)"
  by (cases k) (simp_all add: sorted_desc_def)

section \<open>The method argument of \<open>dcg_at_k\<close> and \<open>ndcg_at_k\<close>\<close>

text \<open>
  C1 (as the code has it). With a method other than 0 and 1, \<open>dcg_at_k\<close> raises
  ValueError exactly when the restriction \<open>r[:k]\<close> is not empty; on an empty restriction
  (an empty vector, \<open>k = 0\<close>, or a negative \<open>k\<close> that cuts everything off) it returns
  0.0 and never looks at the method. \<open>ndcg_at_k\<close> does the same.
\<close>

theorem dcg_invalid_method:
  assumes "meth \<noteq> 0" and "meth \<noteq> 1"
  shows "dcg_at_k r k meth =
           (if r = [] \<or> k = 0 \<or> k \<le> - int (length r) then Inr 0 else Inl ValueError)
       \<and> ndcg_at_k r k meth =
           (if r = [] \<or> k = 0 \<or> k \<le> - int (length r) then Inr 0 else Inl ValueError)"
proof -
  have d: "dcg_at_k v k meth = (if slice_to v (Some k) = [] then Inr 0 else Inl ValueError)" for v
    using assms by (simp add: dcg_at_k_def Let_def)
  have e: "slice_to (sorted_desc r) (Some k) = [] \<longleftrightarrow> slice_to r (Some k) = []"
    using length_slice_sorted_desc [of r "Some k"] by (metis length_0_conv)
  have "ndcg_at_k r k meth = (if slice_to r (Some k) = [] then Inr 0 else Inl ValueError)"
    unfolding ndcg_at_k_def d e by simp
  with d [of r] show ?thesis
    unfolding slice_to_empty_iff by simp
qed

theorem dcg_invalid_method_witness:
  "dcg_at_k [3, 2] 2 2 = Inl ValueError \<and> ndcg_at_k [3, 2] 2 2 = Inl ValueError"
  using dcg_invalid_method [of 2 "[3, 2]" 2] by simp

text \<open>
  The claim as the specification states it ("for any \<open>r\<close>, \<open>k\<close>") fails on the empty
  vector: \<open>dcg_at_k([], 1, 2)\<close> and \<open>ndcg_at_k([], 1, 2)\<close> return 0.0.
\<close>

theorem dcg_invalid_method_counterexample:
  "dcg_at_k [] 1 2 = Inr 0 \<and> dcg_at_k [] 1 2 \<noteq> Inl ValueError
   \<and> ndcg_at_k [] 1 2 = Inr 0 \<and> ndcg_at_k [] 1 2 \<noteq> Inl ValueError"
  by (simp add: dcg_at_k_def ndcg_at_k_def sorted_desc_def)

section \<open>Precision at a cutoff\<close>

lemma length_binarize [simp]: "length (binarize r) = length r"
  by (simp add: binarize_def)

lemma length_as_numbers [simp]: "length (as_numbers bs) = length bs"
  by (simp add: as_numbers_def)

lemma np_mean_binarize:
  "xs \<noteq> [] \<Longrightarrow>
     np_mean (as_numbers (binarize xs)) =
       Fin (real (length (filter (\<lambda>x. x \<noteq> 0) xs)) / real (length xs))"
  by (simp add: np_mean_def sum_list_as_numbers) (simp add: as_numbers_def binarize_def)

lemma relevant_count_le: "relevant_count r n \<le> n"
  unfolding relevant_count_def
  by (rule order_trans [OF length_filter_le]) simp

lemma relevant_fraction_bounds: "0 \<le> relevant_fraction r n \<and> relevant_fraction r n \<le> 1"
proof (cases "n = 0")
  case True
  then show ?thesis by (simp add: relevant_fraction_def)
next
  case False
  then show ?thesis
    using relevant_count_le [of r n] by (simp add: relevant_fraction_def)
qed

lemma precision_at_k_given:
  assumes "1 \<le> n" and "n \<le> int (length r)"
  shows "precision_at_k r (Some n) = Inr (Fin (relevant_fraction r (nat n)))"
proof -
  have len: "length (take (nat n) r) = nat n"
    using assms by simp
  have "0 < nat n"
    using assms(1) by simp
  with len have ne: "take (nat n) r \<noteq> []"
    by (metis length_greater_0_conv)
  show ?thesis
    using assms len np_mean_binarize [OF ne]
    by (simp add: precision_at_k_def k_asserted_def Let_def relevant_fraction_def relevant_count_def)
qed

lemma precision_at_k_omitted:
  assumes "r \<noteq> []"
  shows "precision_at_k r None = Inr (Fin (relevant_fraction r (length r)))"
  using np_mean_binarize [OF assms]
  by (simp add: precision_at_k_def k_asserted_def Let_def relevant_fraction_def relevant_count_def)

lemma precision_at_k_short:
  assumes "int (length r) < n"
  shows "precision_at_k r (Some n) = Inl ValueError"
  using assms by (simp add: precision_at_k_def k_asserted_def Let_def)

text \<open>
  C5 (as the code has it). \<open>precision_at_k(r, k)\<close> raises ValueError when \<open>k\<close> is given
  and the vector has fewer than \<open>k\<close> elements. For \<open>1 \<le> k \<le> len(r)\<close> it returns the
  fraction of nonzero entries among the first \<open>k\<close> positions, and with \<open>k\<close> omitted and a
  non-empty vector the fraction of nonzero entries of the whole vector; the value lies in
  \<open>[0, 1]\<close>. This holds for every vector of numbers, binary or not.
\<close>

theorem precision_at_k_spec:
  "(int (length r) < n \<longrightarrow> precision_at_k r (Some n) = Inl ValueError)
   \<and> (1 \<le> n \<and> n \<le> int (length r) \<longrightarrow>
        precision_at_k r (Some n) = Inr (Fin (relevant_fraction r (nat n)))
        \<and> 0 \<le> relevant_fraction r (nat n) \<and> relevant_fraction r (nat n) \<le> 1)
   \<and> (r \<noteq> [] \<longrightarrow>
        precision_at_k r None = Inr (Fin (relevant_fraction r (length r)))
        \<and> 0 \<le> relevant_fraction r (length r) \<and> relevant_fraction r (length r) \<le> 1)"
  using precision_at_k_given precision_at_k_omitted precision_at_k_short
    relevant_fraction_bounds by simp

theorem precision_at_k_spec_witness:
  "precision_at_k [1, 0] (Some 3) = Inl ValueError
   \<and> precision_at_k [1, 0, 2] (Some 2) = Inr (Fin (1 / 2))
   \<and> precision_at_k [1, 0, 2] None = Inr (Fin (2 / 3))"
  using precision_at_k_spec [of "[1, 0]" 3] precision_at_k_spec [of "[1, 0, 2]" 2]
  by (simp add: relevant_fraction_def relevant_count_def)

text \<open>
  The claim as stated lets \<open>k\<close> be omitted on any binary vector. On the empty vector
  \<open>np.mean\<close> of the empty array is \<open>nan\<close>, which is no value in \<open>[0, 1]\<close>.
\<close>

theorem precision_at_k_counterexample:
  "precision_at_k [] None = Inr NaN"
  by (simp add: precision_at_k_def k_asserted_def Let_def binarize_def as_numbers_def np_mean_def)

text \<open>
  C10. On a non-empty vector, omitting the cutoff gives the same result as the cutoff
  \<open>len(r)\<close>.
\<close>

theorem precision_at_k_omitted_full:
  assumes "r \<noteq> []"
  shows "precision_at_k r None = precision_at_k r (Some (int (length r)))"
proof -
  have "1 \<le> int (length r)"
    using assms by (cases r) simp_all
  then show ?thesis
    using precision_at_k_given [of "int (length r)" r] precision_at_k_omitted [OF assms]
    by simp
qed

theorem precision_at_k_omitted_full_witness:
  "precision_at_k [1, 0, 2] None = precision_at_k [1, 0, 2] (Some 3)"
  using precision_at_k_omitted_full [of "[1, 0, 2]"] by simp

section \<open>Recall at a cutoff\<close>

lemma slice_to_window:
  "k_asserted k \<Longrightarrow> slice_to r k = take (window r k) r"
  by (cases k) (simp_all add: k_asserted_def window_def)

lemma recall_at_k_unfold:
  assumes "k_asserted k"
  shows "recall_at_k r max_rel k =
           (if max_rel < int (relevant_count r (window r k)) then Inl ValueError
            else Inr (np_true_divide (real (relevant_count r (window r k))) (real_of_int max_rel)))"
proof -
  have "real_of_int max_rel < real c \<longleftrightarrow> max_rel < int c" for c
    by linarith
  then show ?thesis
    using assms
    by (simp add: recall_at_k_def Let_def slice_to_window sum_list_as_numbers relevant_count_def)
qed

text \<open>
  C3 (as the code has it). For a valid \<open>k\<close> (omitted, or at least 1), with \<open>c\<close> the
  number of nonzero entries among the first \<open>k\<close> positions (the whole vector when \<open>k\<close> is
  omitted): \<open>recall_at_k\<close> raises ValueError exactly when \<open>c > max_rel\<close>; otherwise, when
  \<open>max_rel\<close> is not zero, it returns \<open>c / max_rel\<close>, a value in \<open>[0, 1]\<close>. When
  \<open>max_rel = 0\<close> and nothing relevant is found, the division is \<open>0 / 0\<close> and the
  result is \<open>nan\<close>.
\<close>

theorem recall_at_k_spec:
  assumes "k_asserted k" and "c = relevant_count r (window r k)"
  shows "(recall_at_k r max_rel k = Inl ValueError \<longleftrightarrow> max_rel < int c)
       \<and> (int c \<le> max_rel \<and> max_rel \<noteq> 0 \<longrightarrow>
            recall_at_k r max_rel k = Inr (Fin (real c / real_of_int max_rel))
            \<and> 0 \<le> real c / real_of_int max_rel \<and> real c / real_of_int max_rel \<le> 1)
       \<and> (int c \<le> max_rel \<and> max_rel = 0 \<longrightarrow> recall_at_k r max_rel k = Inr NaN)"
proof -
  have u: "recall_at_k r max_rel k =
             (if max_rel < int c then Inl ValueError
              else Inr (np_true_divide (real c) (real_of_int max_rel)))"
    using recall_at_k_unfold [OF assms(1)] assms(2) by simp
  have a: "recall_at_k r max_rel k = Inl ValueError \<longleftrightarrow> max_rel < int c"
    by (simp add: u)
  have b: "recall_at_k r max_rel k = Inr (Fin (real c / real_of_int max_rel))
           \<and> 0 \<le> real c / real_of_int max_rel \<and> real c / real_of_int max_rel \<le> 1"
    if "int c \<le> max_rel" and "max_rel \<noteq> 0"
  proof -
    have pos: "0 < real_of_int max_rel"
      using that by simp
    have le: "real c \<le> real_of_int max_rel"
      using that(1) by linarith
    show ?thesis
      using that pos le by (simp add: u np_true_divide_def)
  qed
  have c: "recall_at_k r max_rel k = Inr NaN" if "int c \<le> max_rel" and "max_rel = 0"
    unfolding u using that by (simp add: np_true_divide_def)
  show ?thesis
    using a b c by blast
qed

theorem recall_at_k_spec_witness:
  "recall_at_k [1, 0, 2] 1 None = Inl ValueError
   \<and> recall_at_k [1, 0, 2] 4 (Some 2) = Inr (Fin (1 / 4))"
  using recall_at_k_spec [of None 2 "[1, 0, 2]" 1]
    recall_at_k_spec [of "Some 2" 1 "[1, 0, 2]" 4]
  by (simp add: k_asserted_def relevant_count_def window_def)

text \<open>
  The claim as stated covers every \<open>max_rel\<close>. With \<open>max_rel = 0\<close> and no relevant
  entry the count does not exceed \<open>max_rel\<close>, nothing is raised, and the value returned
  is \<open>nan\<close>, not a number in \<open>[0, 1]\<close>.
\<close>

theorem recall_at_k_counterexample:
  "recall_at_k [0, 0] 0 None = Inr NaN"
  by (simp add: recall_at_k_def k_asserted_def Let_def binarize_def as_numbers_def np_true_divide_def)

section \<open>Reciprocal rank and R-precision\<close>

lemma nonzero_empty_iff: "nonzero r = [] \<longleftrightarrow> (\<forall>x\<in>set r. x = 0)"
  by (auto simp: nonzero_def filter_empty_conv all_set_conv_all_nth)

lemma upt_split3:
  assumes "j < n"
  shows "[0..<n] = [0..<j] @ j # [Suc j..<n]"
proof -
  have "[0..<n] = [0..<j] @ [j..<n]"
    using assms by (metis le_add_diff_inverse less_imp_le_nat upt_add_eq_append zero_le)
  also have "[j..<n] = j # [Suc j..<n]"
    using assms by (rule upt_conv_Cons)
  finally show ?thesis .
qed

lemma nonzero_first:
  assumes "j < length r" and "r ! j \<noteq> 0" and "\<forall>i<j. r ! i = 0"
  shows "\<exists>js. nonzero r = j # js"
proof -
  have "filter (\<lambda>i. r ! i \<noteq> 0) [0..<j] = []"
    using assms(3) by (simp add: filter_empty_conv)
  then show ?thesis
    using assms(2) by (simp add: nonzero_def upt_split3 [OF assms(1)])
qed

lemma nonzero_last:
  assumes "z < length r" and "r ! z \<noteq> 0" and "\<forall>i. z < i \<and> i < length r \<longrightarrow> r ! i = 0"
  shows "nonzero r \<noteq> [] \<and> last (nonzero r) = z"
proof -
  have "filter (\<lambda>i. r ! i \<noteq> 0) [Suc z..<length r] = []"
    using assms(3) by (simp add: filter_empty_conv)
  then show ?thesis
    using assms(2) by (simp add: nonzero_def upt_split3 [OF assms(1)])
qed

lemma reciprocal_rank_none:
  "\<forall>x\<in>set r. x = 0 \<Longrightarrow> reciprocal_rank r = 0"
  using nonzero_empty_iff [of r] by (simp add: reciprocal_rank_def)

lemma reciprocal_rank_first:
  assumes "j < length r" and "r ! j \<noteq> 0" and "\<forall>i<j. r ! i = 0"
  shows "reciprocal_rank r = 1 / real (j + 1)"
  using nonzero_first [OF assms] by (auto simp: reciprocal_rank_def)

text \<open>
  C9. On a non-empty collection \<open>mean_reciprocal_rank\<close> returns the arithmetic mean of
  the vectors' terms; a vector's term is 0 when it has no nonzero entry, and otherwise
  1 divided by the 1-based rank of its first nonzero entry (\<open>j + 1\<close> for the 0-based
  index \<open>j\<close>). In particular \<open>mean_reciprocal_rank([[0,0,1],[1,0,0]]) = 2/3\<close>.
\<close>

theorem mean_reciprocal_rank_spec:
  assumes "rs \<noteq> []"
  shows "mean_reciprocal_rank rs = Fin (sum_list (map reciprocal_rank rs) / real (length rs))
       \<and> (\<forall>r\<in>set rs.
             ((\<forall>x\<in>set r. x = 0) \<longrightarrow> reciprocal_rank r = 0)
           \<and> (\<forall>j<length r. r ! j \<noteq> 0 \<and> (\<forall>i<j. r ! i = 0) \<longrightarrow>
                  reciprocal_rank r = 1 / real (j + 1)))
       \<and> mean_reciprocal_rank [[0, 0, 1], [1, 0, 0]] = Fin (2 / 3)"
proof -
  have a: "mean_reciprocal_rank rs = Fin (sum_list (map reciprocal_rank rs) / real (length rs))"
    using assms by (simp add: mean_reciprocal_rank_def np_mean_def)
  have b: "mean_reciprocal_rank [[0, 0, 1], [1, 0, 0]] = Fin (2 / 3)"
    by (simp add: mean_reciprocal_rank_def np_mean_def reciprocal_rank_def nonzero_def)
  show ?thesis
    using a b reciprocal_rank_none reciprocal_rank_first by blast
qed

theorem mean_reciprocal_rank_spec_witness:
  "mean_reciprocal_rank [[0, 1], [0, 0]] = Fin (1 / 4)"
proof -
  have "reciprocal_rank [0, 1] = 1 / 2" and "reciprocal_rank [0, 0] = 0"
    using mean_reciprocal_rank_spec [of "[[0, 1], [0, 0]]"] by auto
  moreover have "mean_reciprocal_rank [[0, 1], [0, 0]]
                  = Fin ((reciprocal_rank [0, 1] + reciprocal_rank [0, 0]) / 2)"
    using mean_reciprocal_rank_spec [of "[[0, 1], [0, 0]]"] by simp
  ultimately show ?thesis by simp
qed

lemma nonzero_as_numbers: "nonzero (as_numbers (binarize r)) = nonzero r"
  unfolding nonzero_def as_numbers_def binarize_def
  by (rule filter_cong) simp_all

text \<open>
  C8. \<open>r_precision\<close> returns 0.0 when no entry is nonzero; otherwise, with \<open>z\<close> the
  0-based position of the last nonzero entry, it returns the fraction of nonzero entries
  among the positions 0 to \<open>z\<close> inclusive (the first \<open>z + 1\<close> positions). In particular
  \<open>r_precision([0,1,0,1,0]) = 0.5\<close>.
\<close>

theorem r_precision_spec:
  "((\<forall>x\<in>set r. x = 0) \<longrightarrow> r_precision r = Fin 0)
   \<and> (\<forall>z<length r. r ! z \<noteq> 0 \<and> (\<forall>i. z < i \<and> i < length r \<longrightarrow> r ! i = 0) \<longrightarrow>
          r_precision r = Fin (relevant_fraction r (z + 1)))
   \<and> r_precision [0, 1, 0, 1, 0] = Fin (1 / 2)"
proof -
  have a: "r_precision r = Fin 0" if "\<forall>x\<in>set r. x = 0"
    unfolding r_precision_def Let_def nonzero_as_numbers
    using that nonzero_empty_iff [of r] by simp
  have b: "r_precision r = Fin (relevant_fraction r (z + 1))"
    if "z < length r" and "r ! z \<noteq> 0" and "\<forall>i. z < i \<and> i < length r \<longrightarrow> r ! i = 0" for z
  proof -
    have l: "nonzero r \<noteq> []" "last (nonzero r) = z"
      using nonzero_last [OF that] by simp_all
    have ne: "take (Suc z) r \<noteq> []"
      using that(1) by (cases r) simp_all
    have "nat (int z + 1) = Suc z"
      by simp
    then have "r_precision r = np_mean (as_numbers (binarize (take (Suc z) r)))"
      unfolding r_precision_def Let_def nonzero_as_numbers
      using l by (simp add: binarize_def take_map)
    also have "\<dots> = Fin (relevant_fraction r (z + 1))"
      using that(1) np_mean_binarize [OF ne]
      by (simp add: relevant_fraction_def relevant_count_def min_def)
    finally show ?thesis .
  qed
  have c: "r_precision [0, 1, 0, 1, 0] = Fin (1 / 2)"
    by (simp add: r_precision_def Let_def nonzero_def binarize_def as_numbers_def np_mean_def)
  show ?thesis
    using a b c by blast
qed

theorem r_precision_spec_witness:
  "r_precision [0, 0] = Fin 0 \<and> r_precision [2, 0, 5, 0] = Fin (2 / 3)"
proof -
  have "r_precision [0, 0] = Fin 0"
    using r_precision_spec [of "[0, 0]"] by simp
  moreover have "r_precision [2, 0, 5, 0] = Fin (relevant_fraction [2, 0, 5, 0] (2 + 1))"
  proof -
    have "\<forall>i. 2 < i \<and> i < length [2, 0, 5, 0 :: real] \<longrightarrow> [2, 0, 5, 0 :: real] ! i = 0"
      by (auto simp: less_Suc_eq numeral_eq_Suc)
    then show ?thesis
      using r_precision_spec [of "[2, 0, 5, 0]", THEN conjunct2, THEN conjunct1, rule_format, of 2]
      by simp
  qed
  ultimately show ?thesis
    by (simp add: relevant_fraction_def relevant_count_def)
qed

section \<open>Average precision\<close>

lemma slice_to_map: "slice_to (map f xs) k = map f (slice_to xs k)"
  by (cases k) (simp_all add: take_map)

lemma binarize_as_numbers: "binarize (as_numbers (binarize xs)) = binarize xs"
  by (simp add: binarize_def as_numbers_def)

lemma precision_at_k_boolean_array:
  "precision_at_k (as_numbers (binarize r)) k = precision_at_k r k"
proof -
  have "binarize (slice_to (as_numbers (binarize r)) k) = binarize (slice_to r k)"
    using binarize_as_numbers [of "slice_to r k"]
    by (simp add: binarize_def as_numbers_def slice_to_map)
  then show ?thesis
    by (simp add: precision_at_k_def)
qed

lemma relevant_indices: "filter (\<lambda>k. binarize r ! k) [0..<length r] = nonzero r"
  unfolding nonzero_def binarize_def
  by (rule filter_cong) simp_all

lemma nonzero_bound: "k \<in> set (nonzero r) \<Longrightarrow> k < length r"
  by (simp add: nonzero_def)

lemma collect_returns:
  "\<forall>k\<in>set ks. f k = Inr (g k) \<Longrightarrow> collect (map f ks) = Inr (map g ks)"
  by (induction ks) simp_all

lemma foldl_fl_add_Fin: "foldl fl_add (Fin a) (map Fin xs) = Fin (a + sum_list xs)"
  by (induction xs arbitrary: a) (simp_all add: add.assoc)

lemma np_mean_floats_Fin:
  "xs \<noteq> [] \<Longrightarrow> np_mean_floats (map Fin xs) = Fin (sum_list xs / real (length xs))"
  by (simp add: np_mean_floats_def foldl_fl_add_Fin)

lemma relevant_ranks_nonzero: "relevant_ranks r = map Suc (nonzero r)"
proof -
  have "[1..<length r + 1] = map Suc [0..<length r]"
    by (simp add: map_Suc_upt)
  then show ?thesis
    by (simp add: relevant_ranks_def nonzero_def filter_map comp_def)
qed

lemma relevant_ranks_member:
  "i \<in> set (relevant_ranks r) \<longleftrightarrow> 1 \<le> i \<and> i \<le> length r \<and> r ! (i - 1) \<noteq> 0"
  by (auto simp: relevant_ranks_def)

lemma precision_at_relevant_rank:
  assumes "i \<in> set (relevant_ranks r)"
  shows "precision_at_k r (Some (int i)) = Inr (Fin (relevant_fraction r i))"
proof -
  have "1 \<le> int i" and "int i \<le> int (length r)"
    using assms by (simp_all add: relevant_ranks_member)
  then show ?thesis
    using precision_at_k_given [of "int i" r] by simp
qed

lemma average_precision_unfold:
  "average_precision r =
     Inr (Fin (if relevant_ranks r = [] then 0
               else sum_list (map (relevant_fraction r) (relevant_ranks r))
                      / real (length (relevant_ranks r))))"
proof -
  let ?f = "\<lambda>k. precision_at_k (as_numbers (binarize r)) (Some (int k + 1))"
  let ?g = "\<lambda>k. Fin (relevant_fraction r (Suc k))"
  have "\<forall>k\<in>set (nonzero r). ?f k = Inr (?g k)"
  proof
    fix k assume "k \<in> set (nonzero r)"
    then have "Suc k \<in> set (relevant_ranks r)"
      by (simp add: relevant_ranks_nonzero)
    from precision_at_relevant_rank [OF this]
    show "?f k = Inr (?g k)"
      by (simp add: precision_at_k_boolean_array add.commute)
  qed
  then have c: "collect (map ?f (nonzero r)) = Inr (map ?g (nonzero r))"
    by (rule collect_returns)
  have m: "map ?g (nonzero r) = map Fin (map (relevant_fraction r) (relevant_ranks r))"
    by (simp add: relevant_ranks_nonzero comp_def)
  show ?thesis
  proof (cases "relevant_ranks r = []")
    case True
    then have "nonzero r = []"
      by (simp add: relevant_ranks_nonzero)
    then show ?thesis
      using True by (simp add: average_precision_def Let_def relevant_indices)
  next
    case False
    then have ne: "map (relevant_fraction r) (relevant_ranks r) \<noteq> []"
      by simp
    have "average_precision r = Inr (np_mean_floats (map ?g (nonzero r)))"
      using False by (simp add: average_precision_def Let_def relevant_indices c relevant_ranks_nonzero)
    also have "\<dots> = Inr (Fin (sum_list (map (relevant_fraction r) (relevant_ranks r))
                      / real (length (relevant_ranks r))))"
      unfolding m using np_mean_floats_Fin [OF ne] by simp
    finally show ?thesis
      using False by simp
  qed
qed

text \<open>
  C6. \<open>average_precision\<close> returns the arithmetic mean of \<open>precision_at_k(vector, i)\<close>
  over exactly the 1-based positions \<open>i\<close> whose entry is nonzero (each counted once), and
  0.0 when the vector has no nonzero entry. In particular
  \<open>average_precision([0,0,0]) = 0.0\<close> and \<open>average_precision([1,0,1]) = 5/6\<close>.
\<close>

theorem average_precision_spec:
  "(\<forall>i. i \<in> set (relevant_ranks r) \<longleftrightarrow> 1 \<le> i \<and> i \<le> length r \<and> r ! (i - 1) \<noteq> 0)
   \<and> distinct (relevant_ranks r)
   \<and> (\<forall>i\<in>set (relevant_ranks r).
         precision_at_k r (Some (int i)) = Inr (Fin (relevant_fraction r i)))
   \<and> average_precision r =
        Inr (Fin (if relevant_ranks r = [] then 0
                  else sum_list (map (relevant_fraction r) (relevant_ranks r))
                         / real (length (relevant_ranks r))))
   \<and> ((\<forall>x\<in>set r. x = 0) \<longrightarrow> average_precision r = Inr (Fin 0))
   \<and> average_precision [0, 0, 0] = Inr (Fin 0)
   \<and> average_precision [1, 0, 1] = Inr (Fin (5 / 6))"
proof -
  have d: "distinct (relevant_ranks r)"
    by (simp add: relevant_ranks_def)
  have z: "average_precision v = Inr (Fin 0)" if "\<forall>x\<in>set v. x = 0" for v
  proof -
    have "relevant_ranks v = []"
      using that nonzero_empty_iff [of v] by (simp add: relevant_ranks_nonzero)
    then show ?thesis
      by (simp add: average_precision_unfold)
  qed
  have e0: "average_precision [0, 0, 0] = Inr (Fin 0)"
    by (rule z) simp
  have e1: "average_precision [1, 0, 1] = Inr (Fin (5 / 6))"
    by (simp add: average_precision_unfold relevant_ranks_def relevant_fraction_def
        relevant_count_def)
  show ?thesis
    using relevant_ranks_member [of _ r] d precision_at_relevant_rank [of _ r]
      average_precision_unfold [of r] z [of r] e0 e1
    by simp
qed

theorem average_precision_spec_witness:
  "average_precision [0, 2, 2] = Inr (Fin (7 / 12))"
proof -
  have "relevant_ranks [0, 2, 2] = [2, 3]"
    by (simp add: relevant_ranks_def)
  then show ?thesis
    using average_precision_spec [of "[0, 2, 2]"]
    by (simp add: relevant_fraction_def relevant_count_def)
qed

section \<open>Hit rate\<close>

lemma hits_loop_count:
  "hits_loop rs k h = h + length (filter (\<lambda>r. 0 < sum_list (slice_to r (Some k))) rs)"
  by (induction rs arbitrary: h) simp_all

lemma sum_list_pos_iff:
  fixes xs :: "real list"
  assumes "\<forall>x\<in>set xs. 0 \<le> x"
  shows "0 < sum_list xs \<longleftrightarrow> (\<exists>x\<in>set xs. x \<noteq> 0)"
  using assms
proof (induction xs)
  case Nil
  then show ?case by simp
next
  case (Cons x xs)
  then have "0 \<le> x" and "0 \<le> sum_list xs"
    by (simp_all add: sum_list_nonneg)
  with Cons show ?case
    by (cases "x = 0") (auto simp: add_pos_nonneg)
qed

text \<open>
  On a non-empty collection \<open>hit_rate_at_k\<close> raises ValueError exactly when \<open>k < 1\<close> or
  \<open>k\<close> exceeds the length of the first vector. When every entry is non-negative, the sum
  of the first \<open>k\<close> entries is positive exactly when one of them is nonzero, and the value
  returned is the fraction of vectors with a nonzero entry among their first \<open>k\<close>.
\<close>

lemma hit_rate_at_k_nonneg:
  assumes "rs \<noteq> []"
  shows "(hit_rate_at_k rs k = Inl ValueError \<longleftrightarrow> k < 1 \<or> int (length (hd rs)) < k)
       \<and> (1 \<le> k \<and> k \<le> int (length (hd rs)) \<and> (\<forall>r\<in>set rs. \<forall>x\<in>set r. 0 \<le> x) \<longrightarrow>
            hit_rate_at_k rs k =
              Inr (real (length (filter (\<lambda>r. \<exists>x\<in>set (take (nat k) r). x \<noteq> 0) rs))
                     / real (length rs)))"
proof -
  obtain r0 rs' where rs: "rs = r0 # rs'"
    using assms by (cases rs) auto
  have a: "hit_rate_at_k rs k = Inl ValueError \<longleftrightarrow> k < 1 \<or> int (length (hd rs)) < k"
    by (simp add: hit_rate_at_k_def rs)
  have b: "hit_rate_at_k rs k =
             Inr (real (length (filter (\<lambda>r. \<exists>x\<in>set (take (nat k) r). x \<noteq> 0) rs))
                    / real (length rs))"
    if "1 \<le> k" and "k \<le> int (length (hd rs))" and nn: "\<forall>r\<in>set rs. \<forall>x\<in>set r. 0 \<le> x"
  proof -
    have "filter (\<lambda>r. 0 < sum_list (slice_to r (Some k))) rs
            = filter (\<lambda>r. \<exists>x\<in>set (take (nat k) r). x \<noteq> 0) rs"
    proof (rule filter_cong [OF refl])
      fix r assume "r \<in> set rs"
      then have "\<forall>x\<in>set (take (nat k) r). 0 \<le> x"
        using nn by (meson in_set_takeD)
      from sum_list_pos_iff [OF this] that(1)
      show "(0 < sum_list (slice_to r (Some k))) = (\<exists>x\<in>set (take (nat k) r). x \<noteq> 0)"
        by simp
    qed
    then have "hits_loop rs k 0 = length (filter (\<lambda>r. \<exists>x\<in>set (take (nat k) r). x \<noteq> 0) rs)"
      by (simp add: hits_loop_count)
    moreover have "hit_rate_at_k rs k = Inr (real (hits_loop rs k 0) / real (length rs))"
      using that(1,2) by (simp add: hit_rate_at_k_def rs)
    ultimately show ?thesis
      by simp
  qed
  show ?thesis
    using a b by blast
qed

text \<open>
  C4. The function tests \<open>np.sum(r[:k]) > 0\<close> on the raw entries, where its docstring
  ("Relevance is binary (nonzero is relevant)") and the other metrics (\<open>!= 0\<close>) count
  every nonzero entry as relevant. On the vector \<open>[1, -1]\<close> with \<open>k = 2\<close> both leading
  entries are nonzero, so the fraction of vectors with a relevant entry is 1, and the
  function returns 0.
\<close>

theorem hit_rate_at_k_negative_entry:
  "hit_rate_at_k [[1, - 1]] 2 = Inr 0
   \<and> real (length (filter (\<lambda>r. \<exists>x\<in>set (take 2 r). x \<noteq> 0) [[1, - 1 :: real]]))
        / real (length [[1, - 1 :: real]]) = 1"
  by (simp add: hit_rate_at_k_def)

lemma hit_rate_example: "hit_rate_at_k [[0, 1, 0], [0, 0, 0]] 2 = Inr (1 / 2)"
  by (simp add: hit_rate_at_k_def)

section \<open>Discounted cumulative gain\<close>

lemma discounted_sum:
  assumes "length js = length xs"
  shows "sum_list (discounted xs js) = (\<Sum>i<length xs. xs ! i / log 2 (real (js ! i)))"
proof -
  have "sum_list (discounted xs js) = (\<Sum>i = 0..<length xs. discounted xs js ! i)"
    using assms by (simp add: sum_list_sum_nth discounted_def)
  also have "\<dots> = (\<Sum>i = 0..<length xs. xs ! i / log 2 (real (js ! i)))"
    using assms by (intro sum.cong refl) (simp add: discounted_def)
  finally show ?thesis
    by (simp add: atLeast0LessThan)
qed

lemma dcg_at_k_method0:
  assumes "0 \<le> k" and "n = min (nat k) (length r)" and "0 < n"
  shows "dcg_at_k r k 0 = Inr (r ! 0 + (\<Sum>i<n - 1. r ! Suc i / log 2 (real (i + 2))))"
proof -
  let ?s = "take n r"
  have s: "slice_to r (Some k) = ?s"
    using assms(1,2) by (simp add: min_def)
  have len: "length ?s = n"
    using assms(2) by simp
  have ne: "?s \<noteq> []"
    using len assms(3) by (metis length_greater_0_conv)
  have h: "hd ?s = r ! 0"
    using ne assms(3) by (simp add: hd_conv_nth)
  have "sum_list (discounted (tl ?s) [2..<length ?s + 1])
          = (\<Sum>i<length (tl ?s). tl ?s ! i / log 2 (real ([2..<length ?s + 1] ! i)))"
    by (rule discounted_sum) (auto simp del: length_take simp add: len)
  also have "\<dots> = (\<Sum>i<n - 1. r ! Suc i / log 2 (real (i + 2)))"
    unfolding length_tl len
  proof (rule sum.cong [OF refl])
    fix i assume "i \<in> {..<n - 1}"
    then have i: "Suc i < n"
      by simp
    then have "tl ?s ! i = r ! Suc i"
      using len by (simp add: nth_tl)
    moreover have "[2..<n + 1] ! i = i + 2"
      using i by (simp del: upt_Suc)
    ultimately show "tl ?s ! i / log 2 (real ([2..<n + 1] ! i)) = r ! Suc i / log 2 (real (i + 2))"
      by simp
  qed
  finally show ?thesis
    using ne h by (simp add: dcg_at_k_def Let_def s del: slice_to.simps)
qed

lemma dcg_at_k_method1:
  assumes "0 \<le> k" and "n = min (nat k) (length r)" and "0 < n"
  shows "dcg_at_k r k 1 = Inr (\<Sum>i<n. r ! i / log 2 (real (i + 2)))"
proof -
  let ?s = "take n r"
  have s: "slice_to r (Some k) = ?s"
    using assms(1,2) by (simp add: min_def)
  have len: "length ?s = n"
    using assms(2) by simp
  have ne: "?s \<noteq> []"
    using len assms(3) by (metis length_greater_0_conv)
  have "sum_list (discounted ?s [2..<length ?s + 2])
          = (\<Sum>i<length ?s. ?s ! i / log 2 (real ([2..<length ?s + 2] ! i)))"
    by (rule discounted_sum) (auto simp del: length_take simp add: len)
  also have "\<dots> = (\<Sum>i<n. r ! i / log 2 (real (i + 2)))"
    unfolding len
  proof (rule sum.cong [OF refl])
    fix i assume "i \<in> {..<n}"
    then have i: "i < n"
      by simp
    then have "[2..<n + 2] ! i = i + 2"
      by (simp del: upt_Suc)
    then show "?s ! i / log 2 (real ([2..<n + 2] ! i)) = r ! i / log 2 (real (i + 2))"
      using i by simp
  qed
  finally show ?thesis
    using ne by (simp add: dcg_at_k_def Let_def s del: slice_to.simps)
qed

lemma dcg_at_k_empty:
  assumes "0 \<le> k" and "min (nat k) (length r) = 0"
  shows "dcg_at_k r k meth = Inr 0"
proof -
  have "slice_to r (Some k) = []"
    using assms by (auto simp: min_def split: if_splits)
  then show ?thesis
    by (simp add: dcg_at_k_def Let_def del: slice_to.simps)
qed

lemma shift_ranks2:
  "(\<Sum>i<n - 1. f (Suc i) / log 2 (real (i + 2))) = (\<Sum>i = 2..n. f (i - 1) / log 2 (real i))"
  by (rule sum.reindex_bij_witness [of _ "\<lambda>i. i - 2" "\<lambda>i. i + 2"]) auto

lemma shift_ranks1:
  "(\<Sum>i<n. f i / log 2 (real (i + 2))) = (\<Sum>i = 1..n. f (i - 1) / log 2 (real (i + 1)))"
  by (rule sum.reindex_bij_witness [of _ "\<lambda>i. i - 1" "\<lambda>i. i + 1"]) auto

text \<open>
  C7. For a cutoff \<open>k \<ge> 0\<close> and \<open>n = min(k, len(r))\<close>, \<open>dcg_at_k\<close> works on the first
  \<open>n\<close> entries and returns 0.0 when there are none. Under method 0 the first entry
  counts in full and the entry at rank \<open>i \<ge> 2\<close> is divided by \<open>log2(i)\<close>, so the first
  two entries are both undiscounted; under method 1 the entry at rank \<open>i \<ge> 1\<close> is
  divided by \<open>log2(i + 1)\<close>. (Ranks are 1-based; \<open>r ! (i - 1)\<close> is the entry at rank \<open>i\<close>.)
\<close>

theorem dcg_at_k_spec:
  assumes "0 \<le> k" and "n = min (nat k) (length r)"
  shows "slice_to r (Some k) = take n r
       \<and> (n = 0 \<longrightarrow> dcg_at_k r k 0 = Inr 0 \<and> dcg_at_k r k 1 = Inr 0)
       \<and> (0 < n \<longrightarrow>
            dcg_at_k r k 0 = Inr (r ! 0 + (\<Sum>i = 2..n. r ! (i - 1) / log 2 (real i))))
       \<and> (2 \<le> n \<longrightarrow>
            dcg_at_k r k 0 = Inr (r ! 0 + r ! 1 + (\<Sum>i = 3..n. r ! (i - 1) / log 2 (real i))))
       \<and> (0 < n \<longrightarrow>
            dcg_at_k r k 1 = Inr (\<Sum>i = 1..n. r ! (i - 1) / log 2 (real (i + 1))))"
proof -
  have s: "slice_to r (Some k) = take n r"
    using assms by (simp add: min_def)
  have e: "dcg_at_k r k 0 = Inr 0 \<and> dcg_at_k r k 1 = Inr 0" if "n = 0"
    using dcg_at_k_empty [OF assms(1)] that assms(2) by simp
  have m0: "dcg_at_k r k 0 = Inr (r ! 0 + (\<Sum>i = 2..n. r ! (i - 1) / log 2 (real i)))"
    if "0 < n"
    using dcg_at_k_method0 [OF assms that] shift_ranks2 [where n = n and f = "\<lambda>i. r ! i"] by simp
  have m0': "dcg_at_k r k 0 = Inr (r ! 0 + r ! 1 + (\<Sum>i = 3..n. r ! (i - 1) / log 2 (real i)))"
    if "2 \<le> n"
  proof -
    have "{2..n} = insert 2 {3..n}"
      using that by auto
    then have "(\<Sum>i = 2..n. r ! (i - 1) / log 2 (real i))
                 = r ! 1 + (\<Sum>i = 3..n. r ! (i - 1) / log 2 (real i))"
      by simp
    moreover have "0 < n"
      using that by simp
    ultimately show ?thesis
      using m0 by simp
  qed
  have m1: "dcg_at_k r k 1 = Inr (\<Sum>i = 1..n. r ! (i - 1) / log 2 (real (i + 1)))"
    if "0 < n"
    using dcg_at_k_method1 [OF assms that] shift_ranks1 [where n = n and f = "\<lambda>i. r ! i"] by simp
  show ?thesis
    using s e m0 m0' m1 by blast
qed

theorem dcg_at_k_spec_witness:
  "dcg_at_k [3, 2, 5] 2 0 = Inr 5 \<and> dcg_at_k [3, 2, 5] 2 1 = Inr (3 + 2 / log 2 3)
   \<and> dcg_at_k [3, 2, 5] 0 0 = Inr 0"
proof -
  have a: "{2..2::nat} = {2}" and b: "{Suc 0..2::nat} = {Suc 0, 2}"
    by auto
  show ?thesis
    using dcg_at_k_spec [of 2 2 "[3, 2, 5]"] dcg_at_k_spec [of 0 0 "[3, 2, 5]"]
    by (simp add: a b)
qed

section \<open>Normalised discounted cumulative gain\<close>

subsection \<open>The largest entries have the largest prefix sums\<close>





subsection \<open>DCG as a weighted sum, and its ideal\<close>





lemma set_sorted_desc: "set (sorted_desc r) = set r"
  by (simp add: sorted_desc_def)










end
